theory Spec2Isabelle
  imports Main "HOL-Library.Word" "HOL-Library.Sublist"
begin

section \<open>Strings and values of the host language\<close>

text \<open>
  A JavaScript string is a sequence of 16-bit code units, and \<open>.length\<close> counts
  code units. String literals of the script are written with \<open>lit\<close>.
\<close>

type_synonym js_string = "16 word list"

definition lit :: "string \<Rightarrow> js_string" where
  "lit s = map of_char s"

text \<open>The single quote and the backslash, which the string syntax cannot end with.\<close>

definition apostrophe :: js_string where
  "apostrophe = lit [CHR 0x27]"

definition backslash :: js_string where
  "backslash = lit [CHR 0x5C]"

text \<open>
  The values \<open>JSON.parse\<close> can return, and \<open>undefined\<close>, which a property access
  on them can return. An object is the list of its own properties in the order
  \<open>for ... in\<close> enumerates them; the content of a number is never inspected.
\<close>

datatype js_value =
    JUndefined
  | JNull
  | JBoolean bool
  | JNumber int
  | JString js_string
  | JArray "js_value list"
  | JObject "(js_string \<times> js_value) list"

fun typeof :: "js_value \<Rightarrow> js_string" where
  "typeof JUndefined = lit ''undefined''"
| "typeof JNull = lit ''object''"
| "typeof (JBoolean b) = lit ''boolean''"
| "typeof (JNumber n) = lit ''number''"
| "typeof (JString s) = lit ''string''"
| "typeof (JArray elems) = lit ''object''"
| "typeof (JObject props) = lit ''object''"

text \<open>The canonical decimal string of an array index, the key \<open>for ... in\<close> yields for it.\<close>

fun decimal :: "nat \<Rightarrow> js_string" where
  "decimal n =
     (if n < 10 then [of_nat (48 + n)]
      else decimal (n div 10) @ [of_nat (48 + n mod 10)])"

declare decimal.simps [simp del]

text \<open>\<open>Array.prototype.join\<close> on an array of strings.\<close>

fun join :: "js_string \<Rightarrow> js_string list \<Rightarrow> js_string" where
  "join sep [] = []"
| "join sep [x] = x"
| "join sep (x # y # ys) = x @ sep @ join sep (y # ys)"

section \<open>The tag renderer\<close>

definition maxLineLength :: nat where
  "maxLineLength = 80"

definition generateArrayRepresentationForTag :: "js_string list \<Rightarrow> js_string" where
  "generateArrayRepresentationForTag tagAsArray =
     (let stringRepresentations =
            map (\<lambda>component. apostrophe @ component @ apostrophe) tagAsArray;
          oneLineAttempt =
            lit ''  | ['' @ join (lit '', '') stringRepresentations @ lit '']''
      in if length oneLineAttempt \<le> maxLineLength then oneLineAttempt
         else lit ''  | [\<newline>      ''
              @ join (lit '',\<newline>      '') stringRepresentations
              @ lit ''\<newline>    ]'')"

definition generateTypeForTag :: "js_string list \<Rightarrow> js_string" where
  "generateTypeForTag tagAsArray =
     lit ''\<newline>  | '' @ apostrophe @ join (lit ''.'') tagAsArray @ apostrophe
     @ lit ''\<newline>'' @ generateArrayRepresentationForTag tagAsArray"

text \<open>
  \<open>generateDeclaration\<close> reads the module constant \<open>languageFilename\<close>; here it is
  its first argument.
\<close>

definition generateDeclaration :: "js_string \<Rightarrow> js_string list list \<Rightarrow> js_string" where
  "generateDeclaration languageFilename validTagsAsArrays =
     lit ''// This file was automatically generated by running `yarn codegen-translations`\<newline>''
     @ lit ''// using the language file named `'' @ languageFilename @ lit ''`.\<newline>''
     @ lit ''//\<newline>''
     @ lit ''// To regenerate this file, re-execute the `yarn codegen-translations` script.\<newline>''
     @ lit ''\<newline>''
     @ lit ''import { TranslateOptions } from 'i18n-js';\<newline>''
     @ lit ''\<newline>''
     @ lit ''declare module 'i18n-js' {\<newline>''
     @ lit ''  function t(scope: ValidScope, options?: TranslateOptions): string;\<newline>''
     @ lit ''}\<newline>''
     @ lit ''\<newline>''
     @ lit ''type ValidScope ='' @ join [] (map generateTypeForTag validTagsAsArrays)
     @ lit '';\<newline>''"

section \<open>The key flattener\<close>

text \<open>
  \<open>pushNestedKeysAsArrays\<close> appends to \<open>keysArray\<close> in place; here the array is passed
  and returned. \<open>for (let key in object)\<close> enumerates the own properties of an
  object, the indices of an array and of a string, and nothing for \<open>null\<close>,
  \<open>undefined\<close>, a boolean or a number; \<open>object[key]\<close> is the value of that property.
  The character at an index of a string is a string, whose \<open>typeof\<close> is not
  \<open>'object'\<close>, so the body only pushes there.
\<close>

fun pushNestedKeysAsArrays ::
      "js_string list list \<Rightarrow> js_value \<Rightarrow> js_string list \<Rightarrow> js_string list list"
  and for_in_properties ::
      "js_string list list \<Rightarrow> (js_string \<times> js_value) list \<Rightarrow> js_string list \<Rightarrow> js_string list list"
  and for_in_elements ::
      "js_string list list \<Rightarrow> nat \<Rightarrow> js_value list \<Rightarrow> js_string list \<Rightarrow> js_string list list"
where
  "pushNestedKeysAsArrays keysArray (JObject props) prefixArray =
     for_in_properties keysArray props prefixArray"
| "pushNestedKeysAsArrays keysArray (JArray elems) prefixArray =
     for_in_elements keysArray 0 elems prefixArray"
| "pushNestedKeysAsArrays keysArray (JString s) prefixArray =
     keysArray @ map (\<lambda>i. prefixArray @ [decimal i]) [0..<length s]"
| "pushNestedKeysAsArrays keysArray JUndefined prefixArray = keysArray"
| "pushNestedKeysAsArrays keysArray JNull prefixArray = keysArray"
| "pushNestedKeysAsArrays keysArray (JBoolean b) prefixArray = keysArray"
| "pushNestedKeysAsArrays keysArray (JNumber n) prefixArray = keysArray"
| "for_in_properties keysArray [] prefixArray = keysArray"
| "for_in_properties keysArray ((key, v) # rest) prefixArray =
     (let keyRepresentation = prefixArray @ [key];
          pushed = keysArray @ [keyRepresentation];
          after = (if typeof v = lit ''object''
                   then pushNestedKeysAsArrays pushed v keyRepresentation
                   else pushed)
      in for_in_properties after rest prefixArray)"
| "for_in_elements keysArray i [] prefixArray = keysArray"
| "for_in_elements keysArray i (v # rest) prefixArray =
     (let keyRepresentation = prefixArray @ [decimal i];
          pushed = keysArray @ [keyRepresentation];
          after = (if typeof v = lit ''object''
                   then pushNestedKeysAsArrays pushed v keyRepresentation
                   else pushed)
      in for_in_elements after (Suc i) rest prefixArray)"

section \<open>The orchestrator\<close>

text \<open>
  What the script takes from its platform: the third command-line word if there is
  one, the directory of the script, \<open>path.resolve\<close> and \<open>JSON.parse\<close>. A file system
  maps resolved paths to file contents and says which paths can be written.
\<close>

datatype js_error = IOError | SyntaxError | TypeError

record 'p platform =
  argv2 :: "js_string option"
  dirname :: js_string
  path_resolve :: "js_string list \<Rightarrow> 'p"
  JSON_parse :: "js_string \<Rightarrow> js_error + js_value"

record 'p filesystem =
  files :: "'p \<Rightarrow> js_string option"
  writable :: "'p \<Rightarrow> bool"

definition languageFilename :: "'p platform \<Rightarrow> js_string" where
  "languageFilename env = (case argv2 env of None \<Rightarrow> lit ''en_US.json'' | Some a \<Rightarrow> a)"

definition readFileSync :: "'p filesystem \<Rightarrow> 'p \<Rightarrow> js_error + js_string" where
  "readFileSync fs p = (case files fs p of None \<Rightarrow> Inl IOError | Some c \<Rightarrow> Inr c)"

definition writeFileSync ::
  "'p filesystem \<Rightarrow> 'p \<Rightarrow> js_string \<Rightarrow> (js_error + unit) \<times> 'p filesystem" where
  "writeFileSync fs p contents =
     (if writable fs p then (Inr (), fs\<lparr>files := (files fs)(p \<mapsto> contents)\<rparr>)
      else (Inl IOError, fs))"

text \<open>
  The member access \<open>['translation']\<close> on a parsed value: a \<open>TypeError\<close> on \<open>null\<close>
  and \<open>undefined\<close>, the own property of an object when it has one, and
  \<open>undefined\<close> otherwise, since no prototype has a property of that name and it is
  no index.
\<close>

fun get_translation :: "js_value \<Rightarrow> js_error + js_value" where
  "get_translation JUndefined = Inl TypeError"
| "get_translation JNull = Inl TypeError"
| "get_translation (JObject props) =
     (case map_of props (lit ''translation'') of
        None \<Rightarrow> Inr JUndefined
      | Some v \<Rightarrow> Inr v)"
| "get_translation v = Inr JUndefined"

definition languageFilePath :: "'p platform \<Rightarrow> 'p" where
  "languageFilePath env =
     path_resolve env [dirname env, lit ''../src/languages/'', languageFilename env]"

definition declarationFilePath :: "'p platform \<Rightarrow> 'p" where
  "declarationFilePath env =
     path_resolve env [dirname env, lit ''../src/languages/types-generated.d.ts'']"

definition loadLanguageJson :: "'p platform \<Rightarrow> 'p filesystem \<Rightarrow> js_error + js_value" where
  "loadLanguageJson env fs =
     (case readFileSync fs (languageFilePath env) of
        Inl e \<Rightarrow> Inl e
      | Inr languageContents \<Rightarrow>
          (case JSON_parse env languageContents of
             Inl e \<Rightarrow> Inl e
           | Inr parsed \<Rightarrow> get_translation parsed))"

definition writeTypeDeclarationFile ::
  "'p platform \<Rightarrow> 'p filesystem \<Rightarrow> js_string \<Rightarrow> (js_error + unit) \<times> 'p filesystem" where
  "writeTypeDeclarationFile env fs contents =
     writeFileSync fs (declarationFilePath env) contents"

definition run :: "'p platform \<Rightarrow> 'p filesystem \<Rightarrow> (js_error + unit) \<times> 'p filesystem" where
  "run env fs =
     (case loadLanguageJson env fs of
        Inl e \<Rightarrow> (Inl e, fs)
      | Inr languageData \<Rightarrow>
          (let tagsArray = pushNestedKeysAsArrays [] languageData [];
               declarationString = generateDeclaration (languageFilename env) tagsArray
           in writeTypeDeclarationFile env fs declarationString))"

section \<open>The transaction details row\<close>

text \<open>
  The component is an arrow function whose body is a single JSX expression: it
  returns a tree of elements and keeps no state. An element has a component name,
  its props and its children; a child can also be a string, a boolean (which
  renders nothing) or empty. \<open>secondaryValue\<close> is an optional prop: \<open>None\<close> is
  \<open>undefined\<close>.
\<close>

datatype prop_value = PString string | PNumber int

datatype react_node =
    Element string "(string \<times> prop_value) list" "react_node list"
  | StringChild js_string
  | BooleanChild bool
  | EmptyChild

record Props =
  leftComponent :: react_node
  secondaryValue :: "js_string option"
  title :: js_string
  "value" :: js_string

definition DoubleLineTransactionDetailsRow :: "Props \<Rightarrow> react_node" where
  "DoubleLineTransactionDetailsRow props =
     Element ''Box'' [(''paddingVertical'', PString ''20px'')]
       [Element ''Columns'' [(''space'', PString ''10px''), (''alignVertical'', PString ''center'')]
          [Element ''Column'' [(''width'', PString ''content'')] [leftComponent props],
           Element ''Stack'' [(''space'', PString ''10px'')]
             [Element ''Inline'' []
                [Element ''Text''
                   [(''color'', PString ''labelTertiary''), (''size'', PString ''13pt''),
                    (''numberOfLines'', PNumber 1), (''weight'', PString ''semibold'')]
                   [StringChild (title props)]],
              Element ''Columns'' []
                [Element ''Text''
                   [(''color'', PString ''label''), (''size'', PString ''17pt''),
                    (''weight'', PString ''semibold'')]
                   [StringChild (value props)],
                 (case secondaryValue props of
                    None \<Rightarrow> BooleanChild False
                  | Some shown \<Rightarrow>
                      Element ''Column'' [(''width'', PString ''content'')]
                        [Element ''Text''
                           [(''color'', PString ''labelTertiary''), (''size'', PString ''17pt''),
                            (''weight'', PString ''medium''), (''numberOfLines'', PNumber 1)]
                           [StringChild shown]])]]]]"

text \<open>The \<open>Text\<close> elements of a tree, in document order.\<close>

fun text_elements :: "react_node \<Rightarrow> react_node list" where
  "text_elements (Element name attrs children) =
     (if name = ''Text'' then [Element name attrs children]
      else concat (map text_elements children))"
| "text_elements node = []"

section \<open>Vocabulary of the specification\<close>

text \<open>
  The properties \<open>for ... in\<close> enumerates on a value, each with the value
  \<open>object[key]\<close>, and the tags one loop iteration contributes for a property.
\<close>

fun enumerable_properties :: "js_value \<Rightarrow> (js_string \<times> js_value) list" where
  "enumerable_properties (JObject props) = props"
| "enumerable_properties (JArray elems) =
     map (\<lambda>i. (decimal i, elems ! i)) [0..<length elems]"
| "enumerable_properties (JString s) =
     map (\<lambda>i. (decimal i, JString [s ! i])) [0..<length s]"
| "enumerable_properties v = []"

definition tags_of_property :: "js_string \<times> js_value \<Rightarrow> js_string list list" where
  "tags_of_property kv =
     [fst kv] # (if typeof (snd kv) = lit ''object''
                 then map ((#) (fst kv)) (pushNestedKeysAsArrays [] (snd kv) [])
                 else [])"

text \<open>
  A primitive is a value that is neither an array nor a mapping. A language document
  is a mapping with pairwise different keys whose values are primitives or language
  documents. A value is well formed when every object in it has pairwise different
  keys, as every object of the host language has.
\<close>

fun primitive :: "js_value \<Rightarrow> bool" where
  "primitive (JArray elems) = False"
| "primitive (JObject props) = False"
| "primitive v = True"

fun language_document :: "js_value \<Rightarrow> bool" where
  "language_document (JObject props) =
     (distinct (map fst props)
      \<and> (\<forall>kv \<in> set props. primitive (snd kv) \<or> language_document (snd kv)))"
| "language_document v = False"

fun well_formed :: "js_value \<Rightarrow> bool" where
  "well_formed (JObject props) =
     (distinct (map fst props) \<and> (\<forall>kv \<in> set props. well_formed (snd kv)))"
| "well_formed (JArray elems) = (\<forall>c \<in> set elems. well_formed c)"
| "well_formed v = True"

text \<open>
  The value found by following a sequence of keys from the root through nested
  mappings, and the key paths of a document: the non-empty sequences of keys that
  can be followed.
\<close>

fun value_at :: "js_string list \<Rightarrow> js_value \<Rightarrow> js_value option" where
  "value_at [] v = Some v"
| "value_at (k # p) (JObject props) =
     (case map_of props k of None \<Rightarrow> None | Some c \<Rightarrow> value_at p c)"
| "value_at (k # p) v = None"

definition key_path :: "js_string list \<Rightarrow> js_value \<Rightarrow> bool" where
  "key_path p v = (p \<noteq> [] \<and> value_at p v \<noteq> None)"

text \<open>
  The two renderings of the sequence form, in the words of the specification: on one
  line, the quoted components joined by a comma and a space, in brackets after the
  union marker; on several lines, an opening line, one line per quoted component,
  indented by six spaces and ended by a comma except the last, and a closing line.
\<close>

definition single_line_form :: "js_string list \<Rightarrow> js_string" where
  "single_line_form tag =
     lit ''  | ['' @ join (lit '', '') (map (\<lambda>c. apostrophe @ c @ apostrophe) tag) @ lit '']''"

definition multi_line_form :: "js_string list \<Rightarrow> js_string" where
  "multi_line_form tag =
     join (lit ''\<newline>'')
       ([lit ''  | ['']
        @ map (\<lambda>c. lit ''      '' @ apostrophe @ c @ apostrophe @ lit '','') (butlast tag)
        @ [lit ''      '' @ apostrophe @ last tag @ apostrophe]
        @ [lit ''    ]''])"

text \<open>Whether a parsed value has a top-level field \<open>translation\<close>.\<close>

definition has_translation :: "js_value \<Rightarrow> bool" where
  "has_translation parsed =
     (case parsed of
        JObject props \<Rightarrow> lit ''translation'' \<in> set (map fst props)
      | _ \<Rightarrow> False)"

section \<open>Example inputs\<close>

definition example_translation :: js_value where
  "example_translation =
     JObject [(lit ''button'', JObject [(lit ''send'', JString (lit ''Send''))]),
              (lit ''cancel'', JString (lit ''Cancel''))]"

definition example_document :: js_value where
  "example_document = JObject [(lit ''translation'', example_translation)]"

definition example_text :: js_string where
  \<open>example_text =
     lit ''{"translation": {"button": {"send": "Send"}, "cancel": "Cancel"}}''\<close>

definition mixed_document :: js_value where
  "mixed_document =
     JObject [(lit ''a'', JString (lit ''x'')), (lit ''b'', JArray [JString (lit ''y'')])]"

definition long_tag :: "js_string list" where
  "long_tag =
     [lit ''expanded_state'', lit ''swap_details_v2'', lit ''automatic_slippage'',
      lit ''exchanges_description_with_fee'']"

text \<open>
  A platform for the examples: no command-line argument, a parser that knows three
  texts, and paths resolved by joining their parts. Its file system holds one
  language file and lets every path be written.
\<close>

definition example_parse :: "js_string \<Rightarrow> js_error + js_value" where
  "example_parse s =
     (if s = example_text then Inr example_document
      else if s = lit ''{}'' then Inr (JObject [])
      else if s = lit ''null'' then Inr JNull
      else Inl SyntaxError)"

definition example_platform :: "js_string platform" where
  "example_platform =
     \<lparr>argv2 = None, dirname = lit ''/rainbow/scripts'',
      path_resolve = join (lit ''/''), JSON_parse = example_parse\<rparr>"

definition example_filesystem :: "js_string \<Rightarrow> js_string filesystem" where
  "example_filesystem contents =
     \<lparr>files = [languageFilePath example_platform \<mapsto> contents], writable = (\<lambda>p. True)\<rparr>"

section \<open>Properties of the tag renderer\<close>

lemma join_Cons: "xs \<noteq> [] \<Longrightarrow> join sep (x # xs) = x @ sep @ join sep xs"
  by (cases xs) simp_all

text \<open>
  C5. For the tag with the components \<open>a\<close> and \<open>b\<close>, \<open>generateTypeForTag\<close> returns a
  line break, the union member \<open>'a.b'\<close> (the components joined by a dot, in single
  quotes), a line break, and the union member \<open>['a', 'b']\<close>: the two quoted
  components in that order, in brackets.
\<close>

theorem generateTypeForTag_a_b:
  "generateTypeForTag [lit ''a'', lit ''b'']
     = lit ''\<newline>  | 'a.b'\<newline>  | ['a', 'b']''"
  by (simp add: generateTypeForTag_def generateArrayRepresentationForTag_def
        maxLineLength_def lit_def apostrophe_def)

lemma join_lines:
  "tag \<noteq> [] \<Longrightarrow>
   join nl (map (\<lambda>c. ind @ q @ c @ q @ comma) (butlast tag) @ [ind @ q @ last tag @ q] @ [close])
     = ind @ join (comma @ nl @ ind) (map (\<lambda>c. q @ c @ q) tag) @ nl @ close"
proof (induction tag rule: induct_list012)
  case 1
  then show ?case by simp
next
  case (2 x)
  show ?case by simp
next
  case (3 x y zs)
  then show ?case by (simp add: join_Cons)
qed

lemma multi_line_form_eq:
  assumes "tag \<noteq> []"
  shows "multi_line_form tag =
     lit ''  | [\<newline>      ''
     @ join (lit '',\<newline>      '') (map (\<lambda>c. apostrophe @ c @ apostrophe) tag)
     @ lit ''\<newline>    ]''"
proof -
  have a: "lit '',\<newline>      '' = lit '','' @ lit ''\<newline>'' @ lit ''      ''"
    and b: "lit ''  | [\<newline>      '' = lit ''  | ['' @ lit ''\<newline>'' @ lit ''      ''"
    and c: "lit ''\<newline>    ]'' = lit ''\<newline>'' @ lit ''    ]''"
    by (simp_all add: lit_def)
  show ?thesis
    unfolding multi_line_form_def a b c
    using join_lines [OF assms, of "lit ''\<newline>''" "lit ''      ''" apostrophe "lit '',''"
        "lit ''    ]''"]
    by (simp add: join_Cons)
qed

text \<open>
  C4. For every tag, when the single-line rendering of its sequence form is longer
  than 80 code units, \<open>generateArrayRepresentationForTag\<close> returns the multi-line
  form, one quoted component per indented line; otherwise it returns the single-line
  form as it is.
\<close>

theorem array_representation_line_length:
  "generateArrayRepresentationForTag tag =
     (if 80 < length (single_line_form tag) then multi_line_form tag else single_line_form tag)"
proof (cases "80 < length (single_line_form tag)")
  case True
  then have "tag \<noteq> []" by (auto simp: single_line_form_def lit_def)
  with True show ?thesis
    by (simp add: generateArrayRepresentationForTag_def maxLineLength_def Let_def
          multi_line_form_eq single_line_form_def)
next
  case False
  then show ?thesis
    by (simp add: generateArrayRepresentationForTag_def maxLineLength_def Let_def
          single_line_form_def)
qed

text \<open>
  The theorem at a tag of four components whose single-line form has 97 code units,
  at a short tag, and at the boundary: a component of 72 code units gives a line of
  exactly 80 and stays on one line, a component of 73 gives 81 and is wrapped.
\<close>

theorem array_representation_line_length_witness:
  "80 < length (single_line_form long_tag)
   \<and> generateArrayRepresentationForTag long_tag =
       lit ''  | [\<newline>      'expanded_state',\<newline>      'swap_details_v2',\<newline>      'automatic_slippage',\<newline>      'exchanges_description_with_fee'\<newline>    ]''
   \<and> length (single_line_form [lit ''button'', lit ''send'']) \<le> 80
   \<and> generateArrayRepresentationForTag [lit ''button'', lit ''send'']
       = lit ''  | ['button', 'send']''
   \<and> length (single_line_form [replicate 72 97]) = 80
   \<and> generateArrayRepresentationForTag [replicate 72 97]
       = lit ''  | ['' @ apostrophe @ replicate 72 97 @ apostrophe @ lit '']''
   \<and> length (single_line_form [replicate 73 97]) = 81
   \<and> generateArrayRepresentationForTag [replicate 73 97]
       = lit ''  | [\<newline>      '' @ apostrophe @ replicate 73 97 @ apostrophe @ lit ''\<newline>    ]''"
  using array_representation_line_length [of long_tag]
    array_representation_line_length [of "[lit ''button'', lit ''send'']"]
    array_representation_line_length [of "[replicate 72 97]"]
    array_representation_line_length [of "[replicate 73 97]"]
  by (simp add: single_line_form_def multi_line_form_def long_tag_def lit_def apostrophe_def)

text \<open>
  C9. The tag renderer escapes nothing. For every tag, the string form is the
  components joined by dots between two single quotes, and the sequence form holds
  each component between two single quotes, whatever the component contains. So the
  component \<open>it's\<close> and the component made of \<open>a\<close>, a backslash and \<open>b\<close> reach the
  output with their quote and their backslash as they are.
\<close>

theorem tag_renderer_no_escaping:
  "generateTypeForTag tag =
     lit ''\<newline>  | '' @ apostrophe @ join (lit ''.'') tag @ apostrophe @ lit ''\<newline>''
     @ (if length (lit ''  | [''
                   @ join (lit '', '') (map (\<lambda>c. apostrophe @ c @ apostrophe) tag)
                   @ lit '']'') \<le> 80
        then lit ''  | [''
             @ join (lit '', '') (map (\<lambda>c. apostrophe @ c @ apostrophe) tag)
             @ lit '']''
        else lit ''  | [\<newline>      ''
             @ join (lit '',\<newline>      '') (map (\<lambda>c. apostrophe @ c @ apostrophe) tag)
             @ lit ''\<newline>    ]'')
   \<and> generateTypeForTag [lit ''it's'', lit ''a'' @ backslash @ lit ''b'']
       = lit ''\<newline>  | 'it's.a'' @ backslash @ lit ''b'\<newline>  | ['it's', 'a''
         @ backslash @ lit ''b']''"
  by (simp add: generateTypeForTag_def generateArrayRepresentationForTag_def maxLineLength_def
        Let_def lit_def apostrophe_def backslash_def)

section \<open>Properties of the key flattener\<close>

subsection \<open>The shape of the tag list\<close>

lemma typeof_object_iff:
  "typeof v = lit ''object'' \<longleftrightarrow> v = JNull \<or> (\<exists>e. v = JArray e) \<or> (\<exists>p. v = JObject p)"
  by (cases v) (simp_all add: lit_def)

lemma size_property: "(k, c) \<in> set props \<Longrightarrow> size c < size (JObject props)"
  by (induction props) auto

lemma size_element: "c \<in> set elems \<Longrightarrow> size c < size (JArray elems)"
  by (induction elems) auto

lemma size_enumerable:
  assumes "(k, c) \<in> set (enumerable_properties v)" and "typeof c = lit ''object''"
  shows "size c < size v"
proof (cases v)
  case (JObject props)
  with assms(1) have "(k, c) \<in> set props" by simp
  then show ?thesis unfolding JObject by (rule size_property)
next
  case (JArray elems)
  with assms(1) have "c \<in> set elems" by auto
  then show ?thesis unfolding JArray by (rule size_element)
next
  case (JString s)
  with assms show ?thesis by (auto simp: lit_def)
qed (use assms in simp_all)

text \<open>Induction over the values the flattener recurses into.\<close>

lemma nested_induct [case_names nested]:
  assumes "\<And>v. (\<And>k c. (k, c) \<in> set (enumerable_properties v) \<Longrightarrow>
                      typeof c = lit ''object'' \<Longrightarrow> P c) \<Longrightarrow> P v"
  shows "P v"
proof (induction v rule: measure_induct_rule [where f = size])
  case (less v)
  show ?case by (rule assms) (simp add: less size_enumerable)
qed

lemma map_append_Nil: "map ((@) []) xs = xs"
  by (induction xs) simp_all

text \<open>
  Each loop appends, for every property in turn, the tags of that property under the
  current prefix, provided the recursive calls do so.
\<close>

lemma for_in_properties_acc:
  assumes "\<And>k c ka pre. (k, c) \<in> set props \<Longrightarrow> typeof c = lit ''object'' \<Longrightarrow>
             pushNestedKeysAsArrays ka c pre = ka @ map ((@) pre) (pushNestedKeysAsArrays [] c [])"
  shows "for_in_properties ka props pre
           = ka @ concat (map (\<lambda>kv. map ((@) pre) (tags_of_property kv)) props)"
  using assms
proof (induction props arbitrary: ka)
  case Nil
  show ?case by simp
next
  case (Cons kv props)
  obtain k c where kv: "kv = (k, c)" by (cases kv)
  define pushed where "pushed = ka @ [pre @ [k]]"
  define after where "after = (if typeof c = lit ''object''
       then pushNestedKeysAsArrays pushed c (pre @ [k]) else pushed)"
  have rest: "for_in_properties after props pre
           = after @ concat (map (\<lambda>kv. map ((@) pre) (tags_of_property kv)) props)"
  proof (rule Cons.IH)
    fix k' c' ka' pre'
    assume "(k', c') \<in> set props"
    then have "(k', c') \<in> set (kv # props)" by simp
    moreover assume "typeof c' = lit ''object''"
    ultimately show "pushNestedKeysAsArrays ka' c' pre'
        = ka' @ map ((@) pre') (pushNestedKeysAsArrays [] c' [])"
      by (rule Cons.prems)
  qed
  have "typeof c = lit ''object'' \<Longrightarrow> pushNestedKeysAsArrays pushed c (pre @ [k])
          = pushed @ map ((@) (pre @ [k])) (pushNestedKeysAsArrays [] c [])"
    by (rule Cons.prems [of k c]) (simp_all add: kv)
  then have after: "after = ka @ map ((@) pre) (tags_of_property kv)"
    by (simp add: after_def pushed_def tags_of_property_def kv)
  have "for_in_properties ka (kv # props) pre = for_in_properties after props pre"
    by (simp add: kv after_def pushed_def Let_def)
  with rest after show ?case by simp
qed

lemma for_in_elements_acc:
  assumes "\<And>c ka pre. c \<in> set elems \<Longrightarrow> typeof c = lit ''object'' \<Longrightarrow>
             pushNestedKeysAsArrays ka c pre = ka @ map ((@) pre) (pushNestedKeysAsArrays [] c [])"
  shows "for_in_elements ka i elems pre
           = ka @ concat (map (\<lambda>j. map ((@) pre) (tags_of_property (decimal (i + j), elems ! j)))
                            [0..<length elems])"
  using assms
proof (induction elems arbitrary: ka i)
  case Nil
  show ?case by simp
next
  case (Cons c elems)
  define pushed where "pushed = ka @ [pre @ [decimal i]]"
  define after where "after = (if typeof c = lit ''object''
       then pushNestedKeysAsArrays pushed c (pre @ [decimal i]) else pushed)"
  have rest: "for_in_elements after (Suc i) elems pre
           = after @ concat (map (\<lambda>j. map ((@) pre)
                                (tags_of_property (decimal (Suc i + j), elems ! j)))
                            [0..<length elems])"
  proof (rule Cons.IH)
    fix c' ka' pre'
    assume "c' \<in> set elems"
    then have "c' \<in> set (c # elems)" by simp
    moreover assume "typeof c' = lit ''object''"
    ultimately show "pushNestedKeysAsArrays ka' c' pre'
        = ka' @ map ((@) pre') (pushNestedKeysAsArrays [] c' [])"
      by (rule Cons.prems)
  qed
  have "typeof c = lit ''object'' \<Longrightarrow> pushNestedKeysAsArrays pushed c (pre @ [decimal i])
          = pushed @ map ((@) (pre @ [decimal i])) (pushNestedKeysAsArrays [] c [])"
    by (rule Cons.prems [of c]) simp_all
  then have after: "after = ka @ map ((@) pre) (tags_of_property (decimal i, c))"
    by (simp add: after_def pushed_def tags_of_property_def)
  have upt: "[0..<length (c # elems)] = 0 # map Suc [0..<length elems]"
    by (simp add: upt_conv_Cons map_Suc_upt del: upt_Suc)
  have "for_in_elements ka i (c # elems) pre = for_in_elements after (Suc i) elems pre"
    by (simp add: after_def pushed_def Let_def)
  with rest after show ?case unfolding upt by (simp add: comp_def)
qed

text \<open>
  A call appends to the array it is given, and the prefix it is given is put before
  every tag it appends.
\<close>

lemma push_acc_prefix:
  "pushNestedKeysAsArrays ka v pre = ka @ map ((@) pre) (pushNestedKeysAsArrays [] v [])"
proof (induction v arbitrary: ka pre rule: nested_induct)
  case (nested v)
  show ?case
  proof (cases v)
    case (JObject props)
    have "\<And>ka pre. for_in_properties ka props pre
           = ka @ concat (map (\<lambda>kv. map ((@) pre) (tags_of_property kv)) props)"
      by (rule for_in_properties_acc) (rule nested, simp_all add: JObject)
    then show ?thesis by (simp add: JObject map_concat comp_def map_append_Nil)
  next
    case (JArray elems)
    have "\<And>ka pre i. for_in_elements ka i elems pre
           = ka @ concat (map (\<lambda>j. map ((@) pre) (tags_of_property (decimal (i + j), elems ! j)))
                            [0..<length elems])"
    proof (rule for_in_elements_acc)
      fix c ka pre
      assume c: "c \<in> set elems" and t: "typeof c = lit ''object''"
      from c obtain i where "i < length elems" "c = elems ! i"
        by (auto simp: in_set_conv_nth)
      then have "(decimal i, c) \<in> set (enumerable_properties v)"
        by (simp add: JArray)
      then show "pushNestedKeysAsArrays ka c pre
          = ka @ map ((@) pre) (pushNestedKeysAsArrays [] c [])"
        using t by (rule nested)
    qed
    then show ?thesis by (simp add: JArray map_concat comp_def map_append_Nil)
  qed (simp_all add: comp_def)
qed

text \<open>The tag list of a value is the concatenation of the tags of its properties.\<close>

lemma push_unfold:
  "pushNestedKeysAsArrays [] v [] = concat (map tags_of_property (enumerable_properties v))"
proof (cases v)
  case (JObject props)
  have "for_in_properties [] props []
      = [] @ concat (map (\<lambda>kv. map ((@) []) (tags_of_property kv)) props)"
    by (rule for_in_properties_acc) (rule push_acc_prefix)
  then show ?thesis by (simp add: JObject map_append_Nil)
next
  case (JArray elems)
  have "for_in_elements [] 0 elems []
      = [] @ concat (map (\<lambda>j. map ((@) []) (tags_of_property (decimal (0 + j), elems ! j)))
                       [0..<length elems])"
    by (rule for_in_elements_acc) (rule push_acc_prefix)
  then show ?thesis by (simp add: JArray comp_def map_append_Nil)
next
  case (JString s)
  then show ?thesis by (simp add: comp_def tags_of_property_def lit_def)
qed simp_all

lemma in_tags_of_property:
  "t \<in> set (tags_of_property (k, c)) \<longleftrightarrow>
     t = [k] \<or> (typeof c = lit ''object''
                \<and> (\<exists>q \<in> set (pushNestedKeysAsArrays [] c []). t = k # q))"
  by (auto simp: tags_of_property_def)

lemma in_flatten:
  "t \<in> set (pushNestedKeysAsArrays [] v []) \<longleftrightarrow>
     (\<exists>k c. (k, c) \<in> set (enumerable_properties v) \<and>
        (t = [k] \<or> (typeof c = lit ''object''
                    \<and> (\<exists>q \<in> set (pushNestedKeysAsArrays [] c []). t = k # q))))"
proof -
  have "t \<in> set (pushNestedKeysAsArrays [] v []) \<longleftrightarrow>
     (\<exists>kv \<in> set (enumerable_properties v). t \<in> set (tags_of_property kv))"
    by (subst push_unfold) auto
  also have "\<dots> \<longleftrightarrow> (\<exists>k c. (k, c) \<in> set (enumerable_properties v)
                         \<and> t \<in> set (tags_of_property (k, c)))"
    by auto
  finally show ?thesis by (simp only: in_tags_of_property)
qed

lemma tags_nonempty: "t \<in> set (pushNestedKeysAsArrays [] v []) \<Longrightarrow> t \<noteq> []"
  by (subst (asm) in_flatten) auto

lemma tags_of_property_head:
  "t \<in> set (tags_of_property kv) \<Longrightarrow> \<exists>q. t = fst kv # q"
  by (cases kv) (auto simp: in_tags_of_property)

lemma value_at_Cons_object:
  "value_at (k # p) v = Some c \<Longrightarrow>
     \<exists>props c0. v = JObject props \<and> map_of props k = Some c0 \<and> value_at p c0 = Some c"
  by (cases v) (auto split: option.splits)

lemma strict_prefix_Nil_iff: "strict_prefix [] xs \<longleftrightarrow> xs \<noteq> []"
  by (cases xs) simp_all

subsection \<open>Soundness and completeness\<close>

lemma language_document_tags:
  "language_document D \<Longrightarrow> t \<in> set (pushNestedKeysAsArrays [] D []) \<longleftrightarrow> key_path t D"
proof (induction D arbitrary: t rule: nested_induct)
  case (nested D)
  from nested.prems obtain props where D: "D = JObject props"
    by (cases D) simp_all
  from nested.prems have dist: "distinct (map fst props)"
    and kids: "\<And>k c. (k, c) \<in> set props \<Longrightarrow> primitive c \<or> language_document c"
    by (auto simp: D)
  have IH: "\<And>k c q. (k, c) \<in> set props \<Longrightarrow> language_document c \<Longrightarrow>
      q \<in> set (pushNestedKeysAsArrays [] c []) \<longleftrightarrow> key_path q c"
  proof -
    fix k c q assume kc: "(k, c) \<in> set props" and ld: "language_document c"
    from ld have "typeof c = lit ''object''" by (cases c) simp_all
    with kc ld show "q \<in> set (pushNestedKeysAsArrays [] c []) \<longleftrightarrow> key_path q c"
      by (intro nested.IH [of k c]) (simp_all add: D)
  qed
  show ?case
  proof
    assume "t \<in> set (pushNestedKeysAsArrays [] D [])"
    then obtain k c where kc: "(k, c) \<in> set props"
      and t: "t = [k] \<or> (typeof c = lit ''object''
                \<and> (\<exists>q \<in> set (pushNestedKeysAsArrays [] c []). t = k # q))"
      by (subst (asm) in_flatten) (auto simp: D)
    from dist kc have m: "map_of props k = Some c" by simp
    from t show "key_path t D"
    proof
      assume "t = [k]"
      with m show ?thesis by (simp add: key_path_def D)
    next
      assume below: "typeof c = lit ''object''
          \<and> (\<exists>q \<in> set (pushNestedKeysAsArrays [] c []). t = k # q)"
      then obtain q where q: "q \<in> set (pushNestedKeysAsArrays [] c [])" and tq: "t = k # q"
        by auto
      have "language_document c"
      proof (rule ccontr)
        assume "\<not> language_document c"
        with kids [OF kc] have "primitive c" by simp
        with below have "pushNestedKeysAsArrays [] c [] = []"
          by (cases c) (simp_all add: lit_def)
        with q show False by simp
      qed
      with IH [OF kc] q have "key_path q c" by simp
      with m show ?thesis by (simp add: key_path_def D tq)
    qed
  next
    assume "key_path t D"
    then obtain k q where tq: "t = k # q" and v: "value_at (k # q) D \<noteq> None"
      by (cases t) (auto simp: key_path_def)
    then obtain c where m: "map_of props k = Some c" and vq: "value_at q c \<noteq> None"
      by (auto simp: D split: option.splits)
    from m have kc: "(k, c) \<in> set props" by (rule map_of_SomeD)
    show "t \<in> set (pushNestedKeysAsArrays [] D [])"
    proof (cases q)
      case Nil
      with kc show ?thesis by (subst in_flatten) (auto simp: D tq)
    next
      case (Cons k' q')
      with vq obtain ps where c: "c = JObject ps" by (cases c) simp_all
      with kids [OF kc] have ld: "language_document c" by simp
      from vq Cons have "key_path q c" by (simp add: key_path_def)
      with IH [OF kc ld] have "q \<in> set (pushNestedKeysAsArrays [] c [])" by simp
      moreover from c have "typeof c = lit ''object''" by simp
      ultimately show ?thesis using kc by (subst in_flatten) (auto simp: D tq)
    qed
  qed
qed

lemma distinct_tags_of_properties:
  assumes "distinct (map fst props)"
    and "\<And>kv. kv \<in> set props \<Longrightarrow> distinct (tags_of_property kv)"
  shows "distinct (concat (map tags_of_property props))"
  using assms
proof (induction props)
  case Nil
  show ?case by simp
next
  case (Cons kv props)
  have "set (tags_of_property kv) \<inter> set (concat (map tags_of_property props)) = {}"
  proof (rule ccontr)
    assume "set (tags_of_property kv) \<inter> set (concat (map tags_of_property props)) \<noteq> {}"
    then obtain t kv' where t: "t \<in> set (tags_of_property kv)"
      and kv': "kv' \<in> set props" and t': "t \<in> set (tags_of_property kv')"
      by auto
    from t t' have "fst kv = fst kv'" by (auto dest!: tags_of_property_head)
    with kv' Cons.prems(1) show False by auto
  qed
  moreover have "distinct (concat (map tags_of_property props))"
    using Cons.prems by (intro Cons.IH) simp_all
  moreover have "distinct (tags_of_property kv)"
    by (rule Cons.prems(2)) simp
  ultimately show ?case by simp
qed

lemma distinct_tags_of_property:
  assumes "typeof c = lit ''object'' \<Longrightarrow> distinct (pushNestedKeysAsArrays [] c [])"
  shows "distinct (tags_of_property (k, c))"
proof (cases "typeof c = lit ''object''")
  case True
  have "[k] \<notin> (#) k ` set (pushNestedKeysAsArrays [] c [])"
    by (auto dest: tags_nonempty)
  with True assms show ?thesis
    by (simp add: tags_of_property_def distinct_map)
next
  case False
  then show ?thesis by (simp add: tags_of_property_def)
qed

lemma language_document_distinct:
  "language_document D \<Longrightarrow> distinct (pushNestedKeysAsArrays [] D [])"
proof (induction D rule: nested_induct)
  case (nested D)
  from nested.prems obtain props where D: "D = JObject props"
    by (cases D) simp_all
  from nested.prems have dist: "distinct (map fst props)"
    and kids: "\<And>k c. (k, c) \<in> set props \<Longrightarrow> primitive c \<or> language_document c"
    by (auto simp: D)
  have "distinct (concat (map tags_of_property props))"
  proof (rule distinct_tags_of_properties [OF dist])
    fix kv assume kv: "kv \<in> set props"
    obtain k c where kc: "kv = (k, c)" by (cases kv)
    have "distinct (tags_of_property (k, c))"
    proof (rule distinct_tags_of_property)
      assume ty: "typeof c = lit ''object''"
      from kids kv kc have "primitive c \<or> language_document c" by simp
      then show "distinct (pushNestedKeysAsArrays [] c [])"
      proof
        assume "primitive c"
        with ty have "pushNestedKeysAsArrays [] c [] = []"
          by (cases c) (simp_all add: lit_def)
        then show ?thesis by simp
      next
        assume "language_document c"
        with kv kc ty show ?thesis by (intro nested.IH [of k c]) (simp_all add: D)
      qed
    qed
    then show "distinct (tags_of_property kv)" by (simp add: kc)
  qed
  then show ?case by (subst push_unfold) (simp add: D)
qed

text \<open>
  C1. For every language document, the tag list the key flattener produces from the
  empty prefix holds every tag once, and its tags are exactly the key paths of the
  document: every key at every nesting level has its tag (completeness), and every
  tag is the path of a key of the document (soundness).
\<close>

theorem flatten_sound_complete:
  "language_document D \<Longrightarrow>
     distinct (pushNestedKeysAsArrays [] D [])
     \<and> (\<forall>p. p \<in> set (pushNestedKeysAsArrays [] D []) \<longleftrightarrow> key_path p D)"
  by (simp add: language_document_distinct language_document_tags)

theorem flatten_sound_complete_witness:
  "language_document example_translation
   \<and> distinct (pushNestedKeysAsArrays [] example_translation [])
   \<and> (\<forall>p. p \<in> set (pushNestedKeysAsArrays [] example_translation [])
            \<longleftrightarrow> key_path p example_translation)"
proof -
  have h: "language_document example_translation"
    by (simp add: example_translation_def lit_def)
  show ?thesis using h flatten_sound_complete [OF h] by simp
qed

text \<open>
  C8. For the document whose \<open>translation\<close> field maps \<open>button\<close> to a mapping with the
  key \<open>send\<close>, and \<open>cancel\<close> to a string, the flattener produces the three tags
  \<open>button\<close>, \<open>button.send\<close> and \<open>cancel\<close> and no other, and the generated declaration
  has one pair of union members for each of them and for nothing else.
\<close>

theorem example_union:
  "get_translation example_document = Inr example_translation
   \<and> pushNestedKeysAsArrays [] example_translation []
       = [[lit ''button''], [lit ''button'', lit ''send''], [lit ''cancel'']]
   \<and> generateDeclaration (lit ''en_US.json'') (pushNestedKeysAsArrays [] example_translation [])
       = lit ''// This file was automatically generated by running `yarn codegen-translations`\<newline>// using the language file named `en_US.json`.\<newline>//\<newline>// To regenerate this file, re-execute the `yarn codegen-translations` script.\<newline>\<newline>import { TranslateOptions } from 'i18n-js';\<newline>\<newline>declare module 'i18n-js' {\<newline>  function t(scope: ValidScope, options?: TranslateOptions): string;\<newline>}\<newline>\<newline>type ValidScope =\<newline>  | 'button'\<newline>  | ['button']\<newline>  | 'button.send'\<newline>  | ['button', 'send']\<newline>  | 'cancel'\<newline>  | ['cancel'];\<newline>''"
  by (simp add: example_document_def example_translation_def generateDeclaration_def
        generateTypeForTag_def generateArrayRepresentationForTag_def maxLineLength_def
        lit_def apostrophe_def)

subsection \<open>Parents before descendants\<close>

lemma flatten_split_property:
  assumes "(k, c) \<in> set (enumerable_properties v)"
  shows "\<exists>A B. pushNestedKeysAsArrays [] v [] = A @ tags_of_property (k, c) @ B"
proof -
  from assms obtain es1 es2 where "enumerable_properties v = es1 @ (k, c) # es2"
    by (auto dest: split_list)
  then have "pushNestedKeysAsArrays [] v []
      = concat (map tags_of_property es1) @ tags_of_property (k, c)
        @ concat (map tags_of_property es2)"
    by (subst push_unfold) simp
  then show ?thesis by blast
qed

lemma prefix_before_split:
  "t \<in> set (pushNestedKeysAsArrays [] v []) \<Longrightarrow> strict_prefix p t \<Longrightarrow> p \<noteq> [] \<Longrightarrow>
     \<exists>xs ys. pushNestedKeysAsArrays [] v [] = xs @ p # ys \<and> t \<in> set ys"
proof (induction v arbitrary: p t rule: nested_induct)
  case (nested v)
  from nested.prems(1) obtain k c where kc: "(k, c) \<in> set (enumerable_properties v)"
    and t: "t = [k] \<or> (typeof c = lit ''object''
              \<and> (\<exists>q \<in> set (pushNestedKeysAsArrays [] c []). t = k # q))"
    by (subst (asm) in_flatten) blast
  from nested.prems(2,3) have "t \<noteq> [k]"
    by (cases p) (auto simp: strict_prefix_def)
  with t obtain q where ty: "typeof c = lit ''object''"
    and q: "q \<in> set (pushNestedKeysAsArrays [] c [])" and tq: "t = k # q"
    by auto
  from nested.prems(2,3) obtain p' where p: "p = k # p'" and p': "strict_prefix p' q"
    by (cases p) (auto simp: tq)
  from flatten_split_property [OF kc] obtain A B
    where split: "pushNestedKeysAsArrays [] v [] = A @ tags_of_property (k, c) @ B"
    by blast
  have block: "tags_of_property (k, c) = [k] # map ((#) k) (pushNestedKeysAsArrays [] c [])"
    using ty by (simp add: tags_of_property_def)
  show ?case
  proof (cases "p' = []")
    case True
    have "pushNestedKeysAsArrays [] v []
        = A @ p # (map ((#) k) (pushNestedKeysAsArrays [] c []) @ B)"
      by (simp add: split block p True)
    moreover have "t \<in> set (map ((#) k) (pushNestedKeysAsArrays [] c []) @ B)"
      using q by (simp add: tq)
    ultimately show ?thesis by blast
  next
    case False
    from nested.IH [OF kc ty q p' False] obtain xs ys
      where c: "pushNestedKeysAsArrays [] c [] = xs @ p' # ys" and qy: "q \<in> set ys"
      by blast
    have "pushNestedKeysAsArrays [] v []
        = (A @ [k] # map ((#) k) xs) @ p # (map ((#) k) ys @ B)"
      by (simp add: split block c p)
    moreover have "t \<in> set (map ((#) k) ys @ B)"
      using qy by (simp add: tq)
    ultimately show ?thesis by blast
  qed
qed

text \<open>
  C7. Prefix closure. For every value given to the key flattener and every tag of
  its output, every non-empty proper prefix of the tag (the path of an intermediate
  key) is itself in the output, at a position before the tag: parents are recorded
  before their descendants.
\<close>

theorem prefix_closure:
  assumes "t \<in> set (pushNestedKeysAsArrays [] D [])" and "strict_prefix p t" and "p \<noteq> []"
  shows "\<exists>i j. i < j \<and> j < length (pushNestedKeysAsArrays [] D [])
           \<and> pushNestedKeysAsArrays [] D [] ! i = p
           \<and> pushNestedKeysAsArrays [] D [] ! j = t"
proof -
  from prefix_before_split [OF assms] obtain xs ys
    where s: "pushNestedKeysAsArrays [] D [] = xs @ p # ys" and t: "t \<in> set ys"
    by blast
  from t obtain n where n: "n < length ys" "ys ! n = t"
    by (auto simp: in_set_conv_nth)
  have "length xs < length xs + Suc n" by simp
  moreover have "length xs + Suc n < length (pushNestedKeysAsArrays [] D [])"
    using n by (simp add: s)
  moreover have "pushNestedKeysAsArrays [] D [] ! length xs = p"
    by (simp add: s)
  moreover have "pushNestedKeysAsArrays [] D [] ! (length xs + Suc n) = t"
    using n by (simp add: s nth_append)
  ultimately show ?thesis by blast
qed

theorem prefix_closure_witness:
  "[lit ''button'', lit ''send''] \<in> set (pushNestedKeysAsArrays [] example_translation [])
   \<and> strict_prefix [lit ''button''] [lit ''button'', lit ''send'']
   \<and> (\<exists>i j. i < j \<and> j < length (pushNestedKeysAsArrays [] example_translation [])
           \<and> pushNestedKeysAsArrays [] example_translation [] ! i = [lit ''button'']
           \<and> pushNestedKeysAsArrays [] example_translation [] ! j
               = [lit ''button'', lit ''send''])"
proof -
  have a: "[lit ''button'', lit ''send'']
      \<in> set (pushNestedKeysAsArrays [] example_translation [])"
    by (simp add: example_translation_def lit_def)
  have b: "strict_prefix [lit ''button''] [lit ''button'', lit ''send'']"
    by (simp add: strict_prefix_def)
  have c: "[lit ''button''] \<noteq> []" by simp
  show ?thesis using a b prefix_closure [OF a b c] by simp
qed

subsection \<open>Leaves and arrays\<close>

lemma key_path_is_tag:
  "p \<noteq> [] \<Longrightarrow> value_at p D = Some c \<Longrightarrow> p \<in> set (pushNestedKeysAsArrays [] D [])"
proof (induction p arbitrary: D)
  case Nil
  then show ?case by simp
next
  case (Cons k q)
  from value_at_Cons_object [OF Cons.prems(2)] obtain props c0
    where D: "D = JObject props" and m: "map_of props k = Some c0"
      and v: "value_at q c0 = Some c"
    by blast
  from m have kc: "(k, c0) \<in> set (enumerable_properties D)"
    by (simp add: D map_of_SomeD)
  show ?case
  proof (cases "q = []")
    case True
    with kc show ?thesis by (subst in_flatten) blast
  next
    case False
    with Cons.IH v have q: "q \<in> set (pushNestedKeysAsArrays [] c0 [])" by simp
    from False v have "typeof c0 = lit ''object''"
      by (cases q; cases c0) simp_all
    with kc q show ?thesis by (subst in_flatten) blast
  qed
qed

text \<open>
  The tags that extend a key path are the tags of the value at that path, when the
  flattener recurses into that value, each put after the path.
\<close>

lemma tags_below_key_path:
  "well_formed D \<Longrightarrow> p \<noteq> [] \<Longrightarrow> value_at p D = Some c \<Longrightarrow>
     (t \<in> set (pushNestedKeysAsArrays [] D []) \<and> strict_prefix p t) \<longleftrightarrow>
     (typeof c = lit ''object'' \<and> (\<exists>q \<in> set (pushNestedKeysAsArrays [] c []). t = p @ q))"
proof (induction p arbitrary: D t)
  case Nil
  then show ?case by simp
next
  case (Cons k q)
  from value_at_Cons_object [OF Cons.prems(3)] obtain props c0
    where D: "D = JObject props" and m: "map_of props k = Some c0"
      and v: "value_at q c0 = Some c"
    by blast
  from Cons.prems(1) have dist: "distinct (map fst props)" and wf0: "well_formed c0"
    using m by (auto simp: D dest: map_of_SomeD)
  from m have kc: "(k, c0) \<in> set (enumerable_properties D)"
    by (simp add: D map_of_SomeD)
  have below: "(t \<in> set (pushNestedKeysAsArrays [] D []) \<and> strict_prefix (k # q) t) \<longleftrightarrow>
      (typeof c0 = lit ''object''
       \<and> (\<exists>t' \<in> set (pushNestedKeysAsArrays [] c0 []). t = k # t' \<and> strict_prefix q t'))"
  proof
    assume a: "t \<in> set (pushNestedKeysAsArrays [] D []) \<and> strict_prefix (k # q) t"
    then obtain k' c' where kc': "(k', c') \<in> set props"
      and t: "t = [k'] \<or> (typeof c' = lit ''object''
                \<and> (\<exists>q \<in> set (pushNestedKeysAsArrays [] c' []). t = k' # q))"
      by (subst (asm) in_flatten) (auto simp: D)
    from a have "t \<noteq> [k']" by (auto simp: strict_prefix_def)
    with t obtain t' where ty: "typeof c' = lit ''object''"
      and t': "t' \<in> set (pushNestedKeysAsArrays [] c' [])" and tt: "t = k' # t'"
      by auto
    from a tt have "k' = k" and sp: "strict_prefix q t'" by auto
    with dist kc' m have "c' = c0" by simp
    with ty t' tt sp \<open>k' = k\<close>
    show "typeof c0 = lit ''object''
       \<and> (\<exists>t' \<in> set (pushNestedKeysAsArrays [] c0 []). t = k # t' \<and> strict_prefix q t')"
      by blast
  next
    assume "typeof c0 = lit ''object''
       \<and> (\<exists>t' \<in> set (pushNestedKeysAsArrays [] c0 []). t = k # t' \<and> strict_prefix q t')"
    then obtain t' where ty: "typeof c0 = lit ''object''"
      and t': "t' \<in> set (pushNestedKeysAsArrays [] c0 [])"
      and tt: "t = k # t'" and sp: "strict_prefix q t'"
      by blast
    from kc ty t' have "k # t' \<in> set (pushNestedKeysAsArrays [] D [])"
      by (subst in_flatten) blast
    with tt sp show "t \<in> set (pushNestedKeysAsArrays [] D []) \<and> strict_prefix (k # q) t"
      by simp
  qed
  show ?case
  proof (cases "q = []")
    case True
    with v have "c0 = c" by simp
    with below True show ?thesis
      by (auto simp: strict_prefix_Nil_iff dest: tags_nonempty)
  next
    case False
    from False v have ty0: "typeof c0 = lit ''object''"
      by (cases q; cases c0) simp_all
    have "\<And>t'. (t' \<in> set (pushNestedKeysAsArrays [] c0 []) \<and> strict_prefix q t') \<longleftrightarrow>
      (typeof c = lit ''object'' \<and> (\<exists>r \<in> set (pushNestedKeysAsArrays [] c []). t' = q @ r))"
      by (rule Cons.IH [OF wf0 False v])
    with below ty0 show ?thesis by auto
  qed
qed

text \<open>
  C3, as stated, fails on an array. In the document that maps \<open>a\<close> to the array of
  the one string \<open>x\<close>, the value of \<open>a\<close> is no nested mapping, yet the flattener
  enters it: the output holds the tag of \<open>a\<close> followed by the index \<open>0\<close>, which
  extends the path of \<open>a\<close>.
\<close>

theorem array_value_counterexample:
  "pushNestedKeysAsArrays [] (JObject [(lit ''a'', JArray [JString (lit ''x'')])]) []
     = [[lit ''a''], [lit ''a'', lit ''0'']]
   \<and> strict_prefix [lit ''a''] [lit ''a'', lit ''0'']"
  by (simp add: decimal.simps lit_def)

text \<open>
  C3, amended. In a well-formed document, every key reached through nested mappings
  has its path in the output. When the value of the key is a primitive (a string, a
  number, a boolean, \<open>null\<close>), it is a leaf: no tag of the output extends the path of
  the key. When the value is an array, the flattener enters it as it enters a
  mapping: for every index of the array, the path of the key followed by the index
  in decimal is a tag of the output.
\<close>

theorem leaf_values_not_traversed:
  assumes "well_formed D" and "p \<noteq> []" and "value_at p D = Some c"
  shows "p \<in> set (pushNestedKeysAsArrays [] D [])
     \<and> (primitive c \<longrightarrow> (\<forall>t \<in> set (pushNestedKeysAsArrays [] D []). \<not> strict_prefix p t))
     \<and> (\<forall>elems i. c = JArray elems \<and> i < length elems \<longrightarrow>
           p @ [decimal i] \<in> set (pushNestedKeysAsArrays [] D []))"
proof (intro conjI impI allI ballI)
  show "p \<in> set (pushNestedKeysAsArrays [] D [])"
    using assms(2,3) by (rule key_path_is_tag)
next
  fix t
  assume prim: "primitive c" and t: "t \<in> set (pushNestedKeysAsArrays [] D [])"
  show "\<not> strict_prefix p t"
  proof
    assume "strict_prefix p t"
    with t tags_below_key_path [OF assms, of t]
    obtain q where ty: "typeof c = lit ''object''"
      and q: "q \<in> set (pushNestedKeysAsArrays [] c [])"
      by blast
    from prim ty have "pushNestedKeysAsArrays [] c [] = []"
      by (cases c) (simp_all add: lit_def)
    with q show False by simp
  qed
next
  fix elems i
  assume a: "c = JArray elems \<and> i < length elems"
  then have "(decimal i, elems ! i) \<in> set (enumerable_properties c)" by simp
  then have "[decimal i] \<in> set (pushNestedKeysAsArrays [] c [])"
    by (subst in_flatten) blast
  moreover from a have "typeof c = lit ''object''" by simp
  ultimately show "p @ [decimal i] \<in> set (pushNestedKeysAsArrays [] D [])"
    using tags_below_key_path [OF assms, of "p @ [decimal i]"] by blast
qed

theorem leaf_values_not_traversed_witness:
  "well_formed mixed_document
   \<and> value_at [lit ''a''] mixed_document = Some (JString (lit ''x''))
   \<and> primitive (JString (lit ''x''))
   \<and> [lit ''a''] \<in> set (pushNestedKeysAsArrays [] mixed_document [])
   \<and> \<not> (\<exists>t \<in> set (pushNestedKeysAsArrays [] mixed_document []). strict_prefix [lit ''a''] t)
   \<and> value_at [lit ''b''] mixed_document = Some (JArray [JString (lit ''y'')])
   \<and> [lit ''b'', lit ''0''] \<in> set (pushNestedKeysAsArrays [] mixed_document [])"
proof -
  have wf: "well_formed mixed_document"
    by (simp add: mixed_document_def lit_def)
  have ne: "[lit ''a''] \<noteq> []" "[lit ''b''] \<noteq> []" by simp_all
  have va: "value_at [lit ''a''] mixed_document = Some (JString (lit ''x''))"
    by (simp add: mixed_document_def lit_def)
  have vb: "value_at [lit ''b''] mixed_document = Some (JArray [JString (lit ''y'')])"
    by (simp add: mixed_document_def lit_def)
  have d: "decimal 0 = lit ''0''" by (simp add: decimal.simps lit_def)
  from leaf_values_not_traversed [OF wf ne(1) va]
  have "[lit ''a''] \<in> set (pushNestedKeysAsArrays [] mixed_document [])
     \<and> \<not> (\<exists>t \<in> set (pushNestedKeysAsArrays [] mixed_document []).
             strict_prefix [lit ''a''] t)"
    by simp
  moreover from leaf_values_not_traversed [OF wf ne(2) vb]
  have "[lit ''b''] @ [decimal 0] \<in> set (pushNestedKeysAsArrays [] mixed_document [])"
    by simp
  ultimately show ?thesis using wf va vb by (simp add: d)
qed

section \<open>Properties of the orchestrator\<close>

lemma get_translation_absent:
  assumes "\<not> has_translation parsed"
  shows "get_translation parsed =
     (if parsed = JNull \<or> parsed = JUndefined then Inl TypeError else Inr JUndefined)"
proof (cases parsed)
  case (JObject props)
  with assms have "map_of props (lit ''translation'') = None"
    by (simp add: has_translation_def map_of_eq_None_iff)
  then show ?thesis by (simp add: JObject)
qed simp_all

text \<open>
  C2, as stated, fails on an input file that holds the empty object. The file is
  read and parsed, the parsed value has no field \<open>translation\<close>, and the run returns
  normally: the output file, absent before, holds afterwards the declaration text
  for the empty list of tags.
\<close>

theorem missing_translation_counterexample:
  "readFileSync (example_filesystem (lit ''{}'')) (languageFilePath example_platform)
     = Inr (lit ''{}'')
   \<and> JSON_parse example_platform (lit ''{}'') = Inr (JObject [])
   \<and> \<not> has_translation (JObject [])
   \<and> fst (run example_platform (example_filesystem (lit ''{}''))) = Inr ()
   \<and> files (example_filesystem (lit ''{}'')) (declarationFilePath example_platform) = None
   \<and> files (snd (run example_platform (example_filesystem (lit ''{}''))))
        (declarationFilePath example_platform)
      = Some (generateDeclaration (lit ''en_US.json'') [])"
  by (simp add: run_def loadLanguageJson_def readFileSync_def writeTypeDeclarationFile_def
      writeFileSync_def example_filesystem_def example_platform_def example_parse_def
      example_text_def has_translation_def languageFilePath_def declarationFilePath_def
      languageFilename_def lit_def)

text \<open>
  C2, amended. When the input file is read and parsed and the parsed value has no
  top-level field \<open>translation\<close>, the run fails before the output file is written
  only if the parsed value is \<open>null\<close> (the member access throws, and the file system
  is left as it was). For every other parsed value the missing field reads as
  \<open>undefined\<close>, the key flattener produces no tag, and the run overwrites the output
  file with the declaration text of an empty union, unless the write itself fails.
\<close>

theorem run_without_translation:
  assumes "readFileSync fs (languageFilePath env) = Inr languageContents"
    and "JSON_parse env languageContents = Inr parsed"
    and "\<not> has_translation parsed"
  shows "run env fs =
     (if parsed = JNull \<or> parsed = JUndefined then (Inl TypeError, fs)
      else if writable fs (declarationFilePath env)
      then (Inr (), fs\<lparr>files := (files fs)(declarationFilePath env \<mapsto>
                      generateDeclaration (languageFilename env) [])\<rparr>)
      else (Inl IOError, fs))"
  using assms
  by (simp add: run_def loadLanguageJson_def get_translation_absent
        writeTypeDeclarationFile_def writeFileSync_def)

theorem run_without_translation_witness:
  "run example_platform (example_filesystem (lit ''{}''))
     = (Inr (), (example_filesystem (lit ''{}''))
          \<lparr>files := (files (example_filesystem (lit ''{}'')))
                      (declarationFilePath example_platform \<mapsto>
                         generateDeclaration (lit ''en_US.json'') [])\<rparr>)
   \<and> run example_platform (example_filesystem (lit ''null''))
     = (Inl TypeError, example_filesystem (lit ''null''))"
proof -
  have r: "readFileSync (example_filesystem c) (languageFilePath example_platform) = Inr c" for c
    by (simp add: readFileSync_def example_filesystem_def)
  have p1: "JSON_parse example_platform (lit ''{}'') = Inr (JObject [])"
    by (simp add: example_platform_def example_parse_def example_text_def lit_def)
  have p2: "JSON_parse example_platform (lit ''null'') = Inr JNull"
    by (simp add: example_platform_def example_parse_def example_text_def lit_def)
  have h1: "\<not> has_translation (JObject [])" and h2: "\<not> has_translation JNull"
    by (simp_all add: has_translation_def)
  have w: "writable (example_filesystem c) p" for c p
    by (simp add: example_filesystem_def)
  have n: "languageFilename example_platform = lit ''en_US.json''"
    by (simp add: languageFilename_def example_platform_def)
  show ?thesis
    using run_without_translation [OF r p1 h1] run_without_translation [OF r p2 h2]
    by (simp add: w n)
qed

lemma run_returns:
  assumes "run env fs = (Inr (), fs')"
  shows "\<exists>languageData. loadLanguageJson env fs = Inr languageData
     \<and> writable fs (declarationFilePath env)
     \<and> fs' = fs\<lparr>files := (files fs)(declarationFilePath env \<mapsto>
           generateDeclaration (languageFilename env)
             (pushNestedKeysAsArrays [] languageData []))\<rparr>"
proof -
  from assms obtain languageData where l: "loadLanguageJson env fs = Inr languageData"
    by (cases "loadLanguageJson env fs") (simp_all add: run_def)
  with assms show ?thesis
    by (auto simp: run_def writeTypeDeclarationFile_def writeFileSync_def split: if_splits)
qed

text \<open>
  C6. The generator is deterministic. Every step of \<open>run\<close> is a function of the
  platform and of the file system, and the order of the tags is the order in which
  the parsed value enumerates its properties. When a run returns normally, a run
  from any file system that holds the same input file and lets the output file be
  written returns normally too and writes the text the first run wrote, which is
  there. In particular a second run that starts from the file system the first one
  left, on an unchanged input, leaves that file system exactly as it found it.
\<close>

theorem run_deterministic:
  assumes "run env fs1 = (Inr (), fs1')"
    and "files fs2 (languageFilePath env) = files fs1 (languageFilePath env)"
    and "writable fs2 (declarationFilePath env)"
  shows "run env fs2 =
       (Inr (), fs2\<lparr>files := (files fs2)(declarationFilePath env :=
                        files fs1' (declarationFilePath env))\<rparr>)
     \<and> files fs1' (declarationFilePath env) \<noteq> None
     \<and> (fs2 = fs1' \<longrightarrow> run env fs2 = (Inr (), fs2))"
proof -
  from run_returns [OF assms(1)] obtain languageData
    where l: "loadLanguageJson env fs1 = Inr languageData"
      and fs1': "fs1' = fs1\<lparr>files := (files fs1)(declarationFilePath env \<mapsto>
           generateDeclaration (languageFilename env)
             (pushNestedKeysAsArrays [] languageData []))\<rparr>"
    by blast
  from assms(2) l have "loadLanguageJson env fs2 = Inr languageData"
    by (simp add: loadLanguageJson_def readFileSync_def)
  with assms(3) have r: "run env fs2 =
       (Inr (), fs2\<lparr>files := (files fs2)(declarationFilePath env :=
                        files fs1' (declarationFilePath env))\<rparr>)"
    by (simp add: run_def writeTypeDeclarationFile_def writeFileSync_def fs1')
  moreover have "files fs1' (declarationFilePath env) \<noteq> None"
    by (simp add: fs1')
  moreover have "fs2 = fs1' \<longrightarrow> run env fs2 = (Inr (), fs2)"
  proof
    assume "fs2 = fs1'"
    then have "fs2\<lparr>files := (files fs2)(declarationFilePath env :=
                        files fs1' (declarationFilePath env))\<rparr> = fs2"
      by simp
    with r show "run env fs2 = (Inr (), fs2)" by simp
  qed
  ultimately show ?thesis by blast
qed

text \<open>
  The theorem at the example: the first run writes the declaration file, and the
  second run, from the file system the first one left, returns the same result.
\<close>

theorem run_deterministic_witness:
  "fst (run example_platform (example_filesystem example_text)) = Inr ()
   \<and> run example_platform (snd (run example_platform (example_filesystem example_text)))
       = run example_platform (example_filesystem example_text)
   \<and> files (snd (run example_platform (example_filesystem example_text)))
        (declarationFilePath example_platform) \<noteq> None"
proof -
  obtain fs' where r: "run example_platform (example_filesystem example_text) = (Inr (), fs')"
    by (simp add: run_def loadLanguageJson_def readFileSync_def writeTypeDeclarationFile_def
      writeFileSync_def example_filesystem_def example_platform_def example_parse_def
      example_document_def)
  have "languageFilePath example_platform \<noteq> declarationFilePath example_platform"
    by (simp add: languageFilePath_def declarationFilePath_def example_platform_def
          languageFilename_def lit_def)
  with r have u: "files fs' (languageFilePath example_platform)
      = files (example_filesystem example_text) (languageFilePath example_platform)"
    and w: "writable fs' (declarationFilePath example_platform)"
    by (auto simp: run_def loadLanguageJson_def writeTypeDeclarationFile_def
          writeFileSync_def Let_def example_filesystem_def split: sum.splits if_splits)
  show ?thesis using run_deterministic [OF r u w] r by simp
qed

section \<open>Properties of the transaction details row\<close>

text \<open>
  C10. The \<open>Text\<close> elements of the row are those of the left component, then the
  title and the value, which are there for every combination of props, and then the
  secondary value, which is there exactly when the prop \<open>secondaryValue\<close> is not
  \<open>undefined\<close>, an empty string included. The row is a function of its props alone.
\<close>

theorem row_text_elements:
  "text_elements (DoubleLineTransactionDetailsRow props) =
     text_elements (leftComponent props)
     @ [Element ''Text''
          [(''color'', PString ''labelTertiary''), (''size'', PString ''13pt''),
           (''numberOfLines'', PNumber 1), (''weight'', PString ''semibold'')]
          [StringChild (title props)],
        Element ''Text''
          [(''color'', PString ''label''), (''size'', PString ''17pt''),
           (''weight'', PString ''semibold'')]
          [StringChild (value props)]]
     @ (case secondaryValue props of
          None \<Rightarrow> []
        | Some shown \<Rightarrow>
            [Element ''Text''
               [(''color'', PString ''labelTertiary''), (''size'', PString ''17pt''),
                (''weight'', PString ''medium''), (''numberOfLines'', PNumber 1)]
               [StringChild shown]])"
  by (cases "secondaryValue props") (simp_all add: DoubleLineTransactionDetailsRow_def)

end
